theory Spec2Isabelle
  imports Complex_Main "HOL-Library.Word" "HOL-Library.Sublist"
begin

section \<open>JavaScript numbers\<close>

text \<open>
  A JavaScript number is an IEEE 754 binary64 value. A finite one is the real number
  it denotes (\<open>Num\<close>; the sign of zero is not kept, no operation below depends on it).
  Every arithmetic operation returns the exact result rounded to the nearest double,
  a tie going to the even significand: \<open>fl\<close> rounds with 53 significant bits, with the
  fixed spacing \<open>2 powi (- 1074)\<close> below \<open>2 powi (- 1022)\<close> (gradual underflow), and
  \<open>rnd\<close> turns a rounded value of magnitude \<open>2 ^ 1024\<close> or more into an infinity.
\<close>

datatype number = NaN | Num real | PosInf | NegInf

type_synonym byte = "8 word"

definition roundHalfEven :: "real \<Rightarrow> int" where
  "roundHalfEven x =
     (let f = \<lfloor>x\<rfloor> in
      if of_int f + 1 / 2 < x then f + 1
      else if x < of_int f + 1 / 2 then f
      else if even f then f else f + 1)"

definition expo :: "real \<Rightarrow> int" where
  "expo x = max \<lfloor>log 2 \<bar>x\<bar>\<rfloor> (- 1022)"

definition ulp :: "real \<Rightarrow> real" where
  "ulp x = 2 powi (expo x - 52)"

definition fl :: "real \<Rightarrow> real" where
  "fl x = of_int (roundHalfEven (x / ulp x)) * ulp x"

definition rnd :: "real \<Rightarrow> number" where
  "rnd x =
     (if 2 ^ 1024 \<le> fl x then PosInf
      else if fl x \<le> - (2 ^ 1024) then NegInf
      else Num (fl x))"

text \<open>\<open>a / b\<close> for finite \<open>a\<close> and \<open>b\<close> (a zero divisor is \<open>+0\<close>).\<close>

definition fdiv :: "real \<Rightarrow> real \<Rightarrow> number" where
  "fdiv a b =
     (if b = 0 then (if a = 0 then NaN else if 0 < a then PosInf else NegInf)
      else rnd (a / b))"

text \<open>\<open>x * y\<close>.\<close>

fun fmul :: "number \<Rightarrow> number \<Rightarrow> number" where
  "fmul NaN y = NaN"
| "fmul x NaN = NaN"
| "fmul (Num a) (Num b) = rnd (a * b)"
| "fmul (Num a) PosInf = (if a = 0 then NaN else if 0 < a then PosInf else NegInf)"
| "fmul (Num a) NegInf = (if a = 0 then NaN else if 0 < a then NegInf else PosInf)"
| "fmul PosInf (Num b) = (if b = 0 then NaN else if 0 < b then PosInf else NegInf)"
| "fmul NegInf (Num b) = (if b = 0 then NaN else if 0 < b then NegInf else PosInf)"
| "fmul PosInf PosInf = PosInf"
| "fmul PosInf NegInf = NegInf"
| "fmul NegInf PosInf = NegInf"
| "fmul NegInf NegInf = PosInf"

text \<open>\<open>Math.min\<close>, \<open>Math.max\<close> and \<open>x < y\<close>: exact, and \<open>NaN\<close> where an argument is \<open>NaN\<close>
  (a comparison with \<open>NaN\<close> is false).\<close>

fun Math_min :: "number \<Rightarrow> number \<Rightarrow> number" where
  "Math_min NaN y = NaN"
| "Math_min x NaN = NaN"
| "Math_min NegInf y = NegInf"
| "Math_min x NegInf = NegInf"
| "Math_min PosInf y = y"
| "Math_min x PosInf = x"
| "Math_min (Num a) (Num b) = Num (min a b)"

fun Math_max :: "number \<Rightarrow> number \<Rightarrow> number" where
  "Math_max NaN y = NaN"
| "Math_max x NaN = NaN"
| "Math_max PosInf y = PosInf"
| "Math_max x PosInf = PosInf"
| "Math_max NegInf y = y"
| "Math_max x NegInf = x"
| "Math_max (Num a) (Num b) = Num (max a b)"

fun less_num :: "number \<Rightarrow> number \<Rightarrow> bool" where
  "less_num (Num a) (Num b) = (a < b)"
| "less_num (Num a) PosInf = True"
| "less_num NegInf (Num b) = True"
| "less_num NegInf PosInf = True"
| "less_num x y = False"

text \<open>
  A store into a \<open>Uint8ClampedArray\<close> (ECMAScript \<open>ToUint8Clamp\<close>): \<open>NaN\<close> becomes 0,
  the value is clamped to 0..255 and rounded to the nearest integer, a tie going to
  the even neighbour.
\<close>

definition toUint8Clamp :: "number \<Rightarrow> byte" where
  "toUint8Clamp v =
     (case v of
        NaN \<Rightarrow> 0
      | NegInf \<Rightarrow> 0
      | PosInf \<Rightarrow> 255
      | Num x \<Rightarrow>
          if x \<le> 0 then 0
          else if 255 \<le> x then 255
          else word_of_int (roundHalfEven x))"

text \<open>A real number that is a finite double.\<close>

definition isDouble :: "real \<Rightarrow> bool" where
  "isDouble x = (fl x = x \<and> \<bar>x\<bar> < 2 ^ 1024)"

section \<open>Express engine: \<open>processInstant\<close> of src/BackgroundRemover.tsx\<close>

text \<open>
  The pixel buffer is the \<open>ImageData\<close> that \<open>ctx.getImageData\<close> returns: its
  \<open>data\<close> is a \<open>Uint8ClampedArray\<close>, four bytes (R, G, B, A) per pixel, row by row.
  The arguments \<open>tol\<close> and \<open>fth\<close> are finite doubles. A \<open>NaN\<close> that comes from reading
  the typed array out of range (\<open>undefined\<close>) is the value \<open>None\<close> of the corner sums
  and of the distance.

  The corner sums, their quarter, the differences \<open>r - bgR\<close>, their squares and the sum
  of the squares are written with exact arithmetic, because they are exact in doubles
  (lemma \<open>unrounded_operations_exact\<close> below): a sum of four bytes is an integer up to
  1020, a background channel is a multiple of 1/4, and the sum of the three squares is a
  multiple of 1/16 below \<open>2 ^ 18\<close>. The rounded operations are the square root,
  \<open>tol / 1.5\<close>, and the quotients and products of the ramp.
\<close>

record ImageData =
  width :: nat
  height :: nat
  data :: "byte list"

datatype failure = NoCanvas | IndexSizeError

text \<open>\<open>data[idx]\<close> read as a number: \<open>undefined\<close> (hence \<open>NaN\<close> in arithmetic) out of range.\<close>

definition rd :: "byte list \<Rightarrow> nat \<Rightarrow> real option" where
  "rd d idx = (if idx < length d then Some (real (unat (d ! idx))) else None)"

text \<open>\<open>s += v\<close> and \<open>s / 4\<close> on numbers that may be \<open>NaN\<close>.\<close>

definition plus_num :: "real option \<Rightarrow> real option \<Rightarrow> real option" where
  "plus_num s v = (case s of None \<Rightarrow> None
                   | Some a \<Rightarrow> (case v of None \<Rightarrow> None | Some b \<Rightarrow> Some (a + b)))"

definition div4 :: "real option \<Rightarrow> real option" where
  "div4 s = (case s of None \<Rightarrow> None | Some a \<Rightarrow> Some (a / 4))"

text \<open>The four sampled corners, as \<open>[x, y]\<close> pairs (the width and height are at least 1 here).\<close>

definition corners :: "nat \<Rightarrow> nat \<Rightarrow> (nat \<times> nat) list" where
  "corners w h = [(0, 0), (w - 1, 0), (0, h - 1), (w - 1, h - 1)]"

text \<open>
  The \<open>forEach\<close> over the corners, one channel at a time: channel \<open>k\<close> is 0 for
  \<open>rSum\<close>, 1 for \<open>gSum\<close>, 2 for \<open>bSum\<close>; \<open>idx = (y * canvas.width + x) * 4\<close>.
\<close>

definition cornerSum :: "ImageData \<Rightarrow> nat \<Rightarrow> real option" where
  "cornerSum img k =
     fold (\<lambda>(x, y) s. plus_num s (rd (data img) ((y * width img + x) * 4 + k)))
          (corners (width img) (height img)) (Some 0)"

definition bgR :: "ImageData \<Rightarrow> real option" where
  "bgR img = div4 (cornerSum img 0)"

definition bgG :: "ImageData \<Rightarrow> real option" where
  "bgG img = div4 (cornerSum img 1)"

definition bgB :: "ImageData \<Rightarrow> real option" where
  "bgB img = div4 (cornerSum img 2)"

text \<open>
  \<open>Math.sqrt(Math.pow(r - bgR, 2) + Math.pow(g - bgG, 2) + Math.pow(b - bgB, 2))\<close>
  for a pixel whose three colour bytes were read in range: the square root of the
  exact sum, rounded (the sum is at most \<open>3 * 255\<^sup>2\<close>, so the root is finite).
\<close>

definition dist_rgb :: "real option \<Rightarrow> real option \<Rightarrow> real option \<Rightarrow> byte \<Rightarrow> byte \<Rightarrow> byte \<Rightarrow> real option" where
  "dist_rgb R G B r g b =
     (case R of None \<Rightarrow> None | Some br \<Rightarrow>
      (case G of None \<Rightarrow> None | Some bg \<Rightarrow>
       (case B of None \<Rightarrow> None | Some bb \<Rightarrow>
          Some (fl (sqrt ((real (unat r) - br)\<^sup>2 + (real (unat g) - bg)\<^sup>2 + (real (unat b) - bb)\<^sup>2))))))"

text \<open>\<open>Math.max(0, Math.min(255, (dist / tol) * 255 * (1 / (fth || 1))))\<close>; \<open>fth || 1\<close> is 1 when \<open>fth\<close> is 0.\<close>

definition alpha :: "real \<Rightarrow> real \<Rightarrow> real \<Rightarrow> number" where
  "alpha d tol fth =
     Math_max (Num 0) (Math_min (Num 255)
       (fmul (fmul (fdiv d tol) (Num 255)) (fdiv 1 (if fth = 0 then 1 else fth))))"

text \<open>
  The body of the \<open>for\<close> loop for one pixel: the alpha byte after
  \<open>if (dist < tol) { data[i + 3] = dist < tol / 1.5 ? 0 : alpha }\<close>
  (a comparison with \<open>NaN\<close> is false, so the byte stays).
\<close>

definition pixelAlpha :: "real option \<Rightarrow> real option \<Rightarrow> real option \<Rightarrow> real \<Rightarrow> real \<Rightarrow> byte \<Rightarrow> byte \<Rightarrow> byte \<Rightarrow> byte \<Rightarrow> byte" where
  "pixelAlpha R G B tol fth r g b a =
     (case dist_rgb R G B r g b of
        None \<Rightarrow> a
      | Some d \<Rightarrow>
          if d < tol
          then toUint8Clamp (if less_num (Num d) (fdiv tol 1.5) then Num 0 else alpha d tol fth)
          else a)"

text \<open>
  \<open>for (let i = 0; i < data.length; i += 4)\<close>. A last group of fewer than four bytes is
  left as it is: with fewer than three the distance is \<open>NaN\<close>, with three the write to
  \<open>data[i + 3]\<close> is out of range and ignored.
\<close>

fun thresholdLoop :: "real option \<Rightarrow> real option \<Rightarrow> real option \<Rightarrow> real \<Rightarrow> real \<Rightarrow> byte list \<Rightarrow> byte list" where
  "thresholdLoop R G B tol fth (r # g # b # a # rest) =
     r # g # b # pixelAlpha R G B tol fth r g b a # thresholdLoop R G B tol fth rest"
| "thresholdLoop R G B tol fth xs = xs"

text \<open>
  \<open>processInstant\<close>. The flag \<open>ctx\<close> says that \<open>canvasRef.current\<close> and its 2d context
  exist (otherwise the function returns without calling \<open>onResult\<close>);
  \<open>ctx.getImageData(0, 0, w, h)\<close> throws \<open>IndexSizeError\<close> when \<open>w\<close> or \<open>h\<close> is zero.
  The result is the buffer handed to \<open>putImageData\<close> and encoded for \<open>onResult\<close>.
\<close>

definition processInstant :: "bool \<Rightarrow> ImageData \<Rightarrow> real \<Rightarrow> real \<Rightarrow> failure + ImageData" where
  "processInstant ctx img tol fth =
     (if \<not> ctx then Inl NoCanvas
      else if width img = 0 \<or> height img = 0 then Inl IndexSizeError
      else Inr (img\<lparr>data := thresholdLoop (bgR img) (bgG img) (bgB img) tol fth (data img)\<rparr>))"

text \<open>Reading aids for the statements: the distance of pixel \<open>p\<close> (bytes \<open>4p .. 4p+3\<close>)
  from the background estimate as the loop computes it, the colour bytes of the pixel at
  \<open>(x, y)\<close>, the ramp zone as the loop tests it (\<open>dist < tol\<close> holds and
  \<open>dist < tol / 1.5\<close> does not), and the alpha of pixel \<open>p\<close> in a result.\<close>

definition pixelDist :: "ImageData \<Rightarrow> nat \<Rightarrow> real option" where
  "pixelDist img p =
     dist_rgb (bgR img) (bgG img) (bgB img)
       (data img ! (4 * p)) (data img ! (4 * p + 1)) (data img ! (4 * p + 2))"

definition pixelRGB :: "ImageData \<Rightarrow> nat \<times> nat \<Rightarrow> byte \<times> byte \<times> byte" where
  "pixelRGB img c =
     (let idx = (snd c * width img + fst c) * 4
      in (data img ! idx, data img ! (idx + 1), data img ! (idx + 2)))"

definition inRamp :: "ImageData \<Rightarrow> real \<Rightarrow> nat \<Rightarrow> bool" where
  "inRamp img tol p =
     (case pixelDist img p of
        None \<Rightarrow> False
      | Some d \<Rightarrow> d < tol \<and> \<not> less_num (Num d) (fdiv tol 1.5))"

definition alphaAt :: "failure + ImageData \<Rightarrow> nat \<Rightarrow> nat option" where
  "alphaAt res p =
     (case res of
        Inl _ \<Rightarrow> None
      | Inr out \<Rightarrow> if 4 * p + 3 < length (data out) then Some (unat (data out ! (4 * p + 3))) else None)"

text \<open>The ramp formula as the specification words it, with \<open>max(feather, 1)\<close>, over the reals.\<close>

definition spec_ramp_alpha :: "real \<Rightarrow> real \<Rightarrow> real \<Rightarrow> real" where
  "spec_ramp_alpha d tol feather = max 0 (min 255 ((d / tol) * 255 * (1 / max feather 1)))"

text \<open>
  Three small buffers to run the engine on, each 3 by 1 with grey corners
  (200, 200, 200). The middle pixel of \<open>example_image\<close> is (240, 200, 200) with source
  alpha 100, at distance 40; that of \<open>fine_image\<close> is (239, 200, 200), at distance 39;
  that of \<open>edge_image\<close> is (204, 201, 200), at distance \<open>sqrt 17\<close>.
  \<open>edge_tol\<close> is the double that prints as 6.184658438426491, and \<open>feather_1_8\<close> the
  double that prints as 1.8.
\<close>

definition example_image :: ImageData where
  "example_image =
     \<lparr>width = 3, height = 1,
      data = [200, 200, 200, 255,  240, 200, 200, 100,  200, 200, 200, 255]\<rparr>"

definition fine_image :: ImageData where
  "fine_image =
     \<lparr>width = 3, height = 1,
      data = [200, 200, 200, 255,  239, 200, 200, 255,  200, 200, 200, 255]\<rparr>"

definition edge_image :: ImageData where
  "edge_image =
     \<lparr>width = 3, height = 1,
      data = [200, 200, 200, 255,  204, 201, 200, 255,  200, 200, 200, 255]\<rparr>"

definition edge_tol :: real where
  "edge_tol = 6963306359677835 / 2 ^ 50"

definition feather_1_8 :: real where
  "feather_1_8 = 8106479329266893 / 2 ^ 52"

section \<open>Orchestration: the two \<open>App\<close> components (src/unnamed/part_000, part_001)\<close>

text \<open>
  The React state of \<open>App\<close> is a record; every \<open>setX(v)\<close> is a field update. The
  browser's table of object URLs is part of the state: \<open>URL.createObjectURL\<close> hands out
  a fresh handle and keeps it alive, \<open>URL.revokeObjectURL\<close> releases it (and does
  nothing for a string that is not an object URL, such as \<open>''\<close> or a data URL).
  The \<open>progress\<close> callback of \<open>removeBackground\<close> only writes \<open>progress\<close> and
  \<open>status\<close> and is not modelled.
\<close>

datatype url = ObjectUrl nat | PlainUrl string

record File =
  fname :: string
  ftype :: string
  fsize :: nat

record ProcessedImage =
  originalUrl :: url
  resultUrl :: url
  name :: string

datatype RemovalMode = express | deep

record AppState =
  isProcessing :: bool
  progress :: int
  status :: string
  error :: "string option"
  result :: "ProcessedImage option"
  liveUrls :: "nat list"
  revokedUrls :: "nat list"
  nextUrl :: nat

record App = AppState +
  removalMode :: RemovalMode
  selectedFile :: "File option"

definition createObjectURL :: "'a AppState_scheme \<Rightarrow> url \<times> 'a AppState_scheme" where
  "createObjectURL s =
     (ObjectUrl (nextUrl s), s\<lparr>liveUrls := nextUrl s # liveUrls s, nextUrl := Suc (nextUrl s)\<rparr>)"

definition revokeObjectURL :: "url \<Rightarrow> 'a AppState_scheme \<Rightarrow> 'a AppState_scheme" where
  "revokeObjectURL u s =
     (case u of
        ObjectUrl n \<Rightarrow> s\<lparr>liveUrls := removeAll n (liveUrls s), revokedUrls := n # revokedUrls s\<rparr>
      | PlainUrl _ \<Rightarrow> s)"

text \<open>\<open>str.split(c)\<close> for a one-character separator, and \<open>file.name.split('.')[0] + '_transparent.png'\<close>.\<close>

fun split_chr :: "char \<Rightarrow> string \<Rightarrow> string list" where
  "split_chr c [] = [[]]"
| "split_chr c (x # xs) =
     (if x = c then [] # split_chr c xs
      else (case split_chr c xs of [] \<Rightarrow> [[x]] | p # ps \<Rightarrow> (x # p) # ps))"

definition suggestedName :: "string \<Rightarrow> string" where
  "suggestedName n =
     (case split_chr (CHR ''.'') n of
        [] \<Rightarrow> ''undefined_transparent.png''
      | p # _ \<Rightarrow> p @ ''_transparent.png'')"

subsection \<open>part_000: \<open>processFileDeep\<close>, \<open>handleFileChange\<close>, \<open>reset\<close>\<close>

text \<open>
  \<open>processFileDeep\<close> runs up to its \<open>await\<close> (\<open>processFileDeep_begin\<close>, which also
  returns the local \<open>originalUrl\<close>) and continues when the promise of
  \<open>removeBackground\<close> settles (\<open>processFileDeep_end\<close>: \<open>resolved\<close> is \<open>False\<close> for a
  rejection, which lands in the \<open>catch\<close> block).
\<close>

definition processFileDeep_begin :: "File \<Rightarrow> App \<Rightarrow> App \<times> url" where
  "processFileDeep_begin file s =
     (let s1 = s\<lparr>isProcessing := True, progress := 0,
                   status := ''Initializing Deep AI engine...'', error := None\<rparr>;
          (origUrl, s2) = createObjectURL s1
      in (s2, origUrl))"

definition processFileDeep_end :: "File \<Rightarrow> url \<Rightarrow> bool \<Rightarrow> App \<Rightarrow> App" where
  "processFileDeep_end file origUrl resolved s =
     (if resolved then
        (let (resUrl, s1) = createObjectURL s
         in s1\<lparr>isProcessing := False,
               result := Some \<lparr>originalUrl = origUrl, resultUrl = resUrl,
                                name = suggestedName (fname file)\<rparr>\<rparr>)
      else s\<lparr>isProcessing := False,
             error := Some ''Deep AI failed. The model may be too heavy for your browser.''\<rparr>)"

definition processFileDeep :: "File \<Rightarrow> bool \<Rightarrow> App \<Rightarrow> App" where
  "processFileDeep file resolved s =
     (let (s1, origUrl) = processFileDeep_begin file s
      in processFileDeep_end file origUrl resolved s1)"

text \<open>
  \<open>handleFileChange\<close> up to the point where it returns: the argument is
  \<open>e.target.files?.[0]\<close>; the second component is the pending Deep run, if one started.
\<close>

definition handleFileChange :: "File option \<Rightarrow> App \<Rightarrow> App \<times> (File \<times> url) option" where
  "handleFileChange f s =
     (case f of
        None \<Rightarrow> (s, None)
      | Some file \<Rightarrow>
          (let s1 = s\<lparr>selectedFile := Some file\<rparr> in
           if removalMode s = deep then
             (let (s2, origUrl) = processFileDeep_begin file s1
              in (s2, Some (file, origUrl)))
           else
             (let (origUrl, s2) = createObjectURL s1
              in (s2\<lparr>result := Some \<lparr>originalUrl = origUrl, resultUrl = PlainUrl [],
                                       name = suggestedName (fname file)\<rparr>\<rparr>, None))))"

definition reset :: "App \<Rightarrow> App" where
  "reset s =
     (let s1 = (case result s of
                  None \<Rightarrow> s
                | Some r \<Rightarrow>
                    (let s' = revokeObjectURL (originalUrl r) s
                     in if resultUrl r \<noteq> PlainUrl [] then revokeObjectURL (resultUrl r) s' else s'))
      in s1\<lparr>result := None, selectedFile := None, error := None, progress := 0, status := []\<rparr>)"

text \<open>The state of a freshly mounted \<open>App\<close> (the \<open>useState\<close> initial values), no object URL made yet.\<close>

definition initialApp :: App where
  "initialApp =
     \<lparr>isProcessing = False, progress = 0, status = [], error = None, result = None,
      liveUrls = [], revokedUrls = [], nextUrl = 0, removalMode = express, selectedFile = None\<rparr>"

subsection \<open>part_001: \<open>processFile\<close>\<close>

text \<open>
  \<open>processFile\<close> up to its first \<open>return\<close> or its \<open>await\<close>: the second component is
  \<open>None\<close> after an early return, and the local \<open>originalUrl\<close> when \<open>removeBackground\<close>
  has been called.
\<close>

definition processFile_begin :: "File \<Rightarrow> 'a AppState_scheme \<Rightarrow> 'a AppState_scheme \<times> url option" where
  "processFile_begin file s =
     (if \<not> prefix ''image/'' (ftype file) then
        (s\<lparr>error := Some ''Please upload a valid image file (PNG, JPG, or WebP).''\<rparr>, None)
      else if fsize file > 15 * 1024 * 1024 then
        (s\<lparr>error := Some ''File is too large. Please use an image smaller than 15MB.''\<rparr>, None)
      else
        (let s1 = s\<lparr>isProcessing := True, progress := 0,
                      status := ''Initializing AI engine...'', error := None\<rparr>;
             (origUrl, s2) = createObjectURL s1
         in (s2, Some origUrl)))"

definition processFile_end :: "File \<Rightarrow> url \<Rightarrow> bool \<Rightarrow> 'a AppState_scheme \<Rightarrow> 'a AppState_scheme" where
  "processFile_end file origUrl resolved s =
     (if resolved then
        (let (resUrl, s1) = createObjectURL s
         in s1\<lparr>isProcessing := False, status := ''Success!'',
               result := Some \<lparr>originalUrl = origUrl, resultUrl = resUrl,
                                name = suggestedName (fname file)\<rparr>\<rparr>)
      else s\<lparr>isProcessing := False,
             error := Some ''Processing failed. This can happen if the browser runs out of memory or the image is unsupported.''\<rparr>)"

text \<open>The file name of the output as the specification words it: the name without its
  last extension, followed by \<open>_transparent.png\<close>.\<close>

definition spec_basename :: "string \<Rightarrow> string" where
  "spec_basename n =
     (if CHR ''.'' \<in> set n then rev (tl (dropWhile (\<lambda>c. c \<noteq> CHR ''.'') (rev n))) else n)"

definition spec_suggestedName :: "string \<Rightarrow> string" where
  "spec_suggestedName n = spec_basename n @ ''_transparent.png''"

text \<open>Files and a starting state to run the orchestration on.\<close>

definition empty_png :: File where
  "empty_png = \<lparr>fname = ''empty.png'', ftype = ''image/png'', fsize = 0\<rparr>"

definition notes_txt :: File where
  "notes_txt = \<lparr>fname = ''notes.txt'', ftype = ''text/plain'', fsize = 12\<rparr>"

definition photo :: File where
  "photo = \<lparr>fname = ''my.photo.jpg'', ftype = ''image/jpeg'', fsize = 2048\<rparr>"

definition deepApp :: App where
  "deepApp = initialApp\<lparr>removalMode := deep\<rparr>"

section \<open>Rounding to the nearest double\<close>

lemma roundHalfEven_floor: "\<lfloor>x\<rfloor> \<le> roundHalfEven x \<and> roundHalfEven x \<le> \<lfloor>x\<rfloor> + 1"
  unfolding roundHalfEven_def Let_def by simp

lemma roundHalfEven_range: "0 < x \<Longrightarrow> x < 255 \<Longrightarrow> 0 \<le> roundHalfEven x \<and> roundHalfEven x \<le> 255"
  unfolding roundHalfEven_def Let_def by (auto; linarith)

lemma roundHalfEven_mono:
  assumes "x \<le> y"
  shows "roundHalfEven x \<le> roundHalfEven y"
proof (cases "\<lfloor>x\<rfloor> < \<lfloor>y\<rfloor>")
  case True
  have "roundHalfEven x \<le> \<lfloor>x\<rfloor> + 1" using roundHalfEven_floor [of x] by simp
  also have "\<dots> \<le> \<lfloor>y\<rfloor>" using True by simp
  also have "\<dots> \<le> roundHalfEven y" using roundHalfEven_floor [of y] by simp
  finally show ?thesis .
next
  case False
  with assms have eq: "\<lfloor>x\<rfloor> = \<lfloor>y\<rfloor>" using floor_mono [of x y] by linarith
  show ?thesis
    using assms unfolding roundHalfEven_def Let_def eq by auto
qed

lemma ulp_pos: "0 < ulp x"
  by (simp add: ulp_def)

lemma log2_bounds:
  assumes "0 < x"
  shows "2 powi \<lfloor>log 2 x\<rfloor> \<le> x \<and> x < 2 powi (\<lfloor>log 2 x\<rfloor> + 1)"
proof -
  have "(2::real) powr (of_int \<lfloor>log 2 x\<rfloor>) = 2 powi \<lfloor>log 2 x\<rfloor>"
       "(2::real) powr (of_int \<lfloor>log 2 x\<rfloor> + 1) = 2 powi (\<lfloor>log 2 x\<rfloor> + 1)"
    using powr_int [of "2::real" "\<lfloor>log 2 x\<rfloor>"] powr_int [of "2::real" "\<lfloor>log 2 x\<rfloor> + 1"]
    by (auto simp: power_int_def field_simps)
  moreover have "2 powr (of_int \<lfloor>log 2 x\<rfloor>) \<le> x \<and> x < 2 powr (of_int \<lfloor>log 2 x\<rfloor> + 1)"
    using floor_log_eq_powr_iff [of x 2 "\<lfloor>log 2 x\<rfloor>"] assms by simp
  ultimately show ?thesis by simp
qed

lemma floor_log2_eq:
  assumes "2 powi e \<le> \<bar>x\<bar>" "\<bar>x\<bar> < 2 powi (e + 1)"
  shows "\<lfloor>log 2 \<bar>x\<bar>\<rfloor> = e"
proof -
  have pos: "0 < \<bar>x\<bar>" using assms(1) zero_less_power_int [of "2::real" e] by linarith
  have "(2::real) powr (of_int e) = 2 powi e" "(2::real) powr (of_int e + 1) = 2 powi (e + 1)"
    using powr_int [of "2::real" e] powr_int [of "2::real" "e + 1"]
    by (auto simp: power_int_def field_simps)
  then show ?thesis using assms pos by (simp add: floor_log_eq_powr_iff)
qed

text \<open>
  How \<open>fl\<close> is evaluated: in the binade \<open>2 powi e \<le> \<bar>x\<bar> < 2 powi (e + 1)\<close> the spacing of
  the doubles is \<open>2 powi (e - 52)\<close>; below \<open>2 powi (- 1022)\<close> it is \<open>2 powi (- 1074)\<close>.
\<close>

lemma fl_normal:
  assumes "2 powi e \<le> \<bar>x\<bar>" "\<bar>x\<bar> < 2 powi (e + 1)" "- 1022 \<le> e"
  shows "fl x = of_int (roundHalfEven (x / 2 powi (e - 52))) * 2 powi (e - 52)"
  using floor_log2_eq [OF assms(1,2)] assms(3) by (simp add: fl_def ulp_def expo_def)

lemma fl_zero: "fl 0 = 0"
  by (simp add: fl_def roundHalfEven_def)

lemma fl_subnormal:
  assumes "\<bar>x\<bar> < 2 powi (- 1022)"
  shows "fl x = of_int (roundHalfEven (x / 2 powi (- 1074))) * 2 powi (- 1074)"
proof (cases "x = 0")
  case True
  then show ?thesis by (simp add: fl_zero roundHalfEven_def)
next
  case False
  then have pos: "0 < \<bar>x\<bar>" by simp
  have "\<lfloor>log 2 \<bar>x\<bar>\<rfloor> < - 1022"
  proof (rule ccontr)
    assume "\<not> \<lfloor>log 2 \<bar>x\<bar>\<rfloor> < - 1022"
    then have "(2::real) powi (- 1022) \<le> 2 powi \<lfloor>log 2 \<bar>x\<bar>\<rfloor>"
      by (intro power_int_increasing) simp_all
    also have "\<dots> \<le> \<bar>x\<bar>" using log2_bounds [OF pos] by simp
    finally show False using assms by simp
  qed
  then have "expo x = - 1022" by (simp add: expo_def)
  then show ?thesis by (simp add: fl_def ulp_def)
qed

lemma expo_upper:
  assumes "0 < x"
  shows "x < 2 powi (expo x + 1)"
proof -
  have "x < 2 powi (\<lfloor>log 2 x\<rfloor> + 1)" using log2_bounds [OF assms] by simp
  also have "\<dots> \<le> 2 powi (expo x + 1)"
    using assms by (intro power_int_increasing) (simp_all add: expo_def)
  finally show ?thesis .
qed

lemma expo_lower:
  assumes "0 < x" "- 1022 < expo x"
  shows "2 powi (expo x) \<le> x"
proof -
  from assms have "expo x = \<lfloor>log 2 x\<rfloor>" by (simp add: expo_def max_def split: if_splits)
  then show ?thesis using log2_bounds [OF assms(1)] by simp
qed

lemma expo_mono:
  assumes "0 < x" "x \<le> y"
  shows "expo x \<le> expo y"
proof -
  have "log 2 x \<le> log 2 y" using assms by simp
  then have "\<lfloor>log 2 x\<rfloor> \<le> \<lfloor>log 2 y\<rfloor>" by (rule floor_mono)
  then show ?thesis using assms by (simp add: expo_def)
qed

lemma two_powi_next: "(2::real) powi (e + 1) = 2 ^ 53 * 2 powi (e - 52)"
proof -
  have "(2::real) powi (53 + (e - 52)) = 2 powi 53 * 2 powi (e - 52)"
    by (rule power_int_add) simp
  then show ?thesis by (simp add: add.commute)
qed

lemma two_powi_this: "(2::real) powi e = 2 ^ 52 * 2 powi (e - 52)"
proof -
  have "(2::real) powi (52 + (e - 52)) = 2 powi 52 * 2 powi (e - 52)"
    by (rule power_int_add) simp
  then show ?thesis by simp
qed

lemma fl_nonneg:
  assumes "0 \<le> x"
  shows "0 \<le> fl x"
proof -
  have "0 \<le> x / ulp x" using assms ulp_pos [of x] by simp
  then have "0 \<le> \<lfloor>x / ulp x\<rfloor>" by simp
  then have "0 \<le> roundHalfEven (x / ulp x)" using roundHalfEven_floor [of "x / ulp x"] by linarith
  then show ?thesis using ulp_pos [of x] by (simp add: fl_def)
qed

lemma fl_upper:
  assumes "0 < x"
  shows "fl x \<le> 2 powi (expo x + 1)"
proof -
  have "x / ulp x < 2 ^ 53"
    using expo_upper [OF assms] ulp_pos [of x]
    by (simp add: two_powi_next ulp_def pos_divide_less_eq)
  then have "\<lfloor>x / ulp x\<rfloor> < 2 ^ 53" by (simp add: floor_less_iff)
  then have "roundHalfEven (x / ulp x) \<le> 2 ^ 53"
    using roundHalfEven_floor [of "x / ulp x"] by linarith
  then have "(of_int (roundHalfEven (x / ulp x)) :: real) \<le> 2 ^ 53"
    by (metis of_int_le_iff of_int_numeral of_int_power)
  then have "of_int (roundHalfEven (x / ulp x)) * ulp x \<le> 2 ^ 53 * ulp x"
    using ulp_pos [of x] by (simp add: mult_right_mono)
  then show ?thesis by (simp add: fl_def two_powi_next ulp_def)
qed

lemma fl_lower:
  assumes "0 < x" "- 1022 < expo x"
  shows "2 powi (expo x) \<le> fl x"
proof -
  have "2 ^ 52 \<le> x / ulp x"
    using expo_lower [OF assms] ulp_pos [of x]
    by (simp add: two_powi_this [of "expo x"] ulp_def pos_le_divide_eq)
  then have "2 ^ 52 \<le> \<lfloor>x / ulp x\<rfloor>" by (simp add: le_floor_iff)
  then have "2 ^ 52 \<le> roundHalfEven (x / ulp x)"
    using roundHalfEven_floor [of "x / ulp x"] by linarith
  then have "(2 ^ 52 :: real) \<le> of_int (roundHalfEven (x / ulp x))"
    by (metis of_int_le_iff of_int_numeral of_int_power)
  then have "2 ^ 52 * ulp x \<le> of_int (roundHalfEven (x / ulp x)) * ulp x"
    using ulp_pos [of x] by (simp add: mult_right_mono)
  then show ?thesis by (simp add: fl_def two_powi_this [of "expo x"] ulp_def)
qed

text \<open>Rounding keeps the order of non-negative numbers.\<close>

lemma fl_mono:
  assumes "0 \<le> x" "x \<le> y"
  shows "fl x \<le> fl y"
proof (cases "x = 0")
  case True
  then show ?thesis using fl_nonneg [of y] assms by (simp add: fl_zero)
next
  case False
  with assms have pos: "0 < x" "0 < y" by simp_all
  have le: "expo x \<le> expo y" using expo_mono [OF pos(1) assms(2)] .
  show ?thesis
  proof (cases "expo x = expo y")
    case True
    then have u: "ulp x = ulp y" by (simp add: ulp_def)
    have "x / ulp y \<le> y / ulp y" using assms(2) ulp_pos [of y] by (simp add: divide_right_mono)
    then have "roundHalfEven (x / ulp y) \<le> roundHalfEven (y / ulp y)" by (rule roundHalfEven_mono)
    then show ?thesis using ulp_pos [of y] by (simp add: fl_def u mult_right_mono)
  next
    case False
    with le have lt: "expo x + 1 \<le> expo y" by simp
    have "- 1022 \<le> expo x" by (simp add: expo_def)
    with lt have normal: "- 1022 < expo y" by simp
    have "fl x \<le> 2 powi (expo x + 1)" using fl_upper [OF pos(1)] .
    also have "\<dots> \<le> 2 powi (expo y)" using lt by (intro power_int_increasing) simp_all
    also have "\<dots> \<le> fl y" using fl_lower [OF pos(2) normal] .
    finally show ?thesis .
  qed
qed

lemma fl_1: "fl 1 = 1"
  by (simp add: fl_normal [where e = 0] roundHalfEven_def)

lemma fl_255: "fl 255 = 255"
  by (simp add: fl_normal [where e = 7] roundHalfEven_def)

lemma roundHalfEven_of_int: "roundHalfEven (of_int n) = n"
  by (simp add: roundHalfEven_def)

lemma expo_abs: "expo \<bar>x\<bar> = expo x"
  by (simp add: expo_def)

text \<open>A number with a significand of at most 53 bits and an exponent in range is a double.\<close>

lemma fl_exact:
  assumes "\<bar>m\<bar> \<le> 2 ^ 53" "- 1074 \<le> k"
  shows "fl (of_int m * 2 powi k) = of_int m * 2 powi k"
proof (cases "m = 0")
  case True
  then show ?thesis by (simp add: fl_zero)
next
  case False
  define y :: real where "y = of_int m * 2 powi k"
  define e where "e = expo y"
  have ypos: "0 < \<bar>y\<bar>" using False by (simp add: y_def)
  have absy: "\<bar>y\<bar> = of_int \<bar>m\<bar> * 2 powi k" by (simp add: y_def abs_mult)
  have "\<exists>n. y / 2 powi (e - 52) = of_int n"
  proof (cases "e - 52 \<le> k")
    case True
    then obtain j where j: "k = (e - 52) + int j" by (metis zle_iff_zadd)
    have "(2::real) powi k = 2 powi (e - 52) * 2 powi (int j)"
      unfolding j by (rule power_int_add) simp
    then have "y / 2 powi (e - 52) = of_int (m * 2 ^ j)" by (simp add: y_def)
    then show ?thesis by blast
  next
    case False
    with assms(2) have normal: "- 1022 < expo \<bar>y\<bar>" by (simp add: e_def expo_abs)
    have "2 powi e \<le> \<bar>y\<bar>" using expo_lower [OF ypos normal] by (simp add: e_def expo_abs)
    also have "\<dots> \<le> 2 ^ 53 * 2 powi k"
    proof -
      have "(of_int \<bar>m\<bar> :: real) \<le> 2 ^ 53" using assms(1)
        by (metis of_int_le_iff of_int_numeral of_int_power)
      then show ?thesis unfolding absy by (simp add: mult_right_mono)
    qed
    also have "\<dots> = 2 powi (k + 53)"
    proof -
      have "(2::real) powi (53 + k) = 2 powi 53 * 2 powi k" by (rule power_int_add) simp
      then show ?thesis by (simp add: add.commute)
    qed
    finally have up: "2 powi e \<le> (2::real) powi (k + 53)" .
    have "e \<le> k + 53"
    proof (rule ccontr)
      assume "\<not> e \<le> k + 53"
      then have "(2::real) powi (k + 53) < 2 powi e"
        by (intro power_int_strict_increasing) simp_all
      with up show False by simp
    qed
    with False have ek: "e = k + 53" by simp
    have "(2::real) powi (k + 53) = 2 ^ 53 * 2 powi k"
    proof -
      have "(2::real) powi (53 + k) = 2 powi 53 * 2 powi k" by (rule power_int_add) simp
      then show ?thesis by (simp add: add.commute)
    qed
    with \<open>2 powi e \<le> \<bar>y\<bar>\<close> have "2 ^ 53 * 2 powi k \<le> of_int \<bar>m\<bar> * (2::real) powi k"
      by (simp add: ek absy)
    then have "(2 ^ 53 :: real) \<le> of_int \<bar>m\<bar>" by simp
    then have "2 ^ 53 \<le> \<bar>m\<bar>" by (metis of_int_le_iff of_int_numeral of_int_power)
    with assms(1) have m: "\<bar>m\<bar> = 2 ^ 53" by simp
    have split: "(2::real) powi (1 + k) = 2 * 2 powi k"
    proof -
      have "(2::real) powi (1 + k) = 2 powi 1 * 2 powi k" by (rule power_int_add) simp
      then show ?thesis by simp
    qed
    have "e - 52 = 1 + k" using ek by simp
    then have "y / 2 powi (e - 52) = of_int m * 2 powi k / (2 * 2 powi k)"
      by (simp only: y_def split)
    then have half: "y / 2 powi (e - 52) = of_int m / 2" by simp
    from m consider "m = 2 ^ 53" | "m = - (2 ^ 53)" by linarith
    then show ?thesis
    proof cases
      case 1
      with half have "y / 2 powi (e - 52) = of_int (2 ^ 52)" by simp
      then show ?thesis by blast
    next
      case 2
      with half have "y / 2 powi (e - 52) = of_int (- (2 ^ 52))" by simp
      then show ?thesis by blast
    qed
  qed
  then obtain n where n: "y / 2 powi (e - 52) = of_int n" by blast
  then have "of_int n * 2 powi (e - 52) = y" by (simp add: field_simps)
  then have "fl y = y" using n by (simp add: fl_def ulp_def e_def [symmetric] roundHalfEven_of_int)
  then show ?thesis by (simp add: y_def)
qed


text \<open>
  The operations written without rounding are exact: with channel sums \<open>s\<close> up to 1020 and
  bytes up to 255, every value below is an integer multiple of 1/16 with a numerator far
  below \<open>2 ^ 53\<close>.
\<close>

lemma sq_bound:
  fixes r s :: nat
  assumes "r \<le> 255" "s \<le> 1020"
  shows "\<bar>(4 * int r - int s)\<^sup>2\<bar> \<le> 1040400"
proof -
  have "\<bar>4 * int r - int s\<bar> \<le> \<bar>1020\<bar>" using assms by linarith
  then have "(4 * int r - int s)\<^sup>2 \<le> 1020\<^sup>2" by (simp only: abs_le_square_iff)
  then show ?thesis by simp
qed

lemma diff_as_quarters:
  "real r - real s / 4 = of_int (4 * int r - int s) * 2 powi (- 2)"
  by (simp add: field_simps)

lemma square_as_sixteenths:
  "(real r - real s / 4)\<^sup>2 = of_int ((4 * int r - int s)\<^sup>2) * 2 powi (- 4)"
  by (simp add: field_simps power2_eq_square)

lemma unrounded_operations_exact:
  fixes r g b s1 s2 s3 :: nat
  assumes "r \<le> 255" "g \<le> 255" "b \<le> 255" "s1 \<le> 1020" "s2 \<le> 1020" "s3 \<le> 1020"
  shows "fl (real s1) = real s1"
    and "fl (real s1 / 4) = real s1 / 4"
    and "fl (real r - real s1 / 4) = real r - real s1 / 4"
    and "fl ((real r - real s1 / 4)\<^sup>2) = (real r - real s1 / 4)\<^sup>2"
    and "fl ((real r - real s1 / 4)\<^sup>2 + (real g - real s2 / 4)\<^sup>2) =
           (real r - real s1 / 4)\<^sup>2 + (real g - real s2 / 4)\<^sup>2"
    and "fl ((real r - real s1 / 4)\<^sup>2 + (real g - real s2 / 4)\<^sup>2 + (real b - real s3 / 4)\<^sup>2) =
           (real r - real s1 / 4)\<^sup>2 + (real g - real s2 / 4)\<^sup>2 + (real b - real s3 / 4)\<^sup>2"
proof -
  define a where "a = (4 * int r - int s1)\<^sup>2"
  define b' where "b' = (4 * int g - int s2)\<^sup>2"
  define c where "c = (4 * int b - int s3)\<^sup>2"
  have bounds: "\<bar>a\<bar> \<le> 1040400" "\<bar>b'\<bar> \<le> 1040400" "\<bar>c\<bar> \<le> 1040400"
    unfolding a_def b'_def c_def
    using sq_bound [OF assms(1,4)] sq_bound [OF assms(2,5)] sq_bound [OF assms(3,6)] by simp_all
  have sq: "(real r - real s1 / 4)\<^sup>2 = of_int a * 2 powi (- 4)"
           "(real g - real s2 / 4)\<^sup>2 = of_int b' * 2 powi (- 4)"
           "(real b - real s3 / 4)\<^sup>2 = of_int c * 2 powi (- 4)"
    unfolding a_def b'_def c_def by (rule square_as_sixteenths)+
  show "fl (real s1) = real s1"
    using fl_exact [of "int s1" 0] assms by simp
  show "fl (real s1 / 4) = real s1 / 4"
    using fl_exact [of "int s1" "- 2"] assms by simp
  have "\<bar>4 * int r - int s1\<bar> \<le> 2 ^ 53" using assms by simp
  then have "fl (of_int (4 * int r - int s1) * 2 powi (- 2)) = of_int (4 * int r - int s1) * 2 powi (- 2)"
    by (intro fl_exact) simp_all
  then show "fl (real r - real s1 / 4) = real r - real s1 / 4"
    unfolding diff_as_quarters .
  have "fl (of_int a * 2 powi (- 4)) = of_int a * 2 powi (- 4)"
    using bounds by (intro fl_exact) simp_all
  then show "fl ((real r - real s1 / 4)\<^sup>2) = (real r - real s1 / 4)\<^sup>2"
    unfolding sq .
  have "fl (of_int (a + b') * 2 powi (- 4)) = of_int (a + b') * 2 powi (- 4)"
    using bounds by (intro fl_exact) simp_all
  then show "fl ((real r - real s1 / 4)\<^sup>2 + (real g - real s2 / 4)\<^sup>2) =
           (real r - real s1 / 4)\<^sup>2 + (real g - real s2 / 4)\<^sup>2"
    unfolding sq by (simp only: of_int_add distrib_right)
  have "fl (of_int (a + b' + c) * 2 powi (- 4)) = of_int (a + b' + c) * 2 powi (- 4)"
    using bounds by (intro fl_exact) simp_all
  then show "fl ((real r - real s1 / 4)\<^sup>2 + (real g - real s2 / 4)\<^sup>2 + (real b - real s3 / 4)\<^sup>2) =
           (real r - real s1 / 4)\<^sup>2 + (real g - real s2 / 4)\<^sup>2 + (real b - real s3 / 4)\<^sup>2"
    unfolding sq by (simp only: of_int_add distrib_right)
qed

text \<open>
  Some doubles for comparison: the numbers that \<open>0.1\<close> and \<open>2 / 3\<close> denote, a tie
  (\<open>2 ^ 53 + 1\<close> lies halfway between two doubles and goes to the even one), the
  smallest subnormal, and the overflow of a quotient.
\<close>

lemma fl_tenth: "fl (1 / 10) = 3602879701896397 / 2 ^ 55"
  by (simp add: fl_normal [where e = "- 4"] roundHalfEven_def)

lemma fl_two_thirds: "fl (2 / 3) = 6004799503160661 / 2 ^ 53"
  by (simp add: fl_normal [where e = "- 1"] roundHalfEven_def)

lemma fl_tie: "fl (2 ^ 53 + 1) = 2 ^ 53"
  by (simp add: fl_normal [where e = 53] roundHalfEven_def)

lemma fl_smallest: "fl (2 powi (- 1074) * (2 / 3)) = 2 powi (- 1074)"
  by (simp add: fl_subnormal roundHalfEven_def)

lemma fdiv_overflow: "fdiv 1 (2 powi (- 1074)) = PosInf"
  by (simp add: fdiv_def rnd_def fl_normal [where e = 1074] roundHalfEven_def)

section \<open>The clamped store and the ramp\<close>

lemma unat_byte_of_int: "0 \<le> k \<Longrightarrow> k \<le> 255 \<Longrightarrow> unat (word_of_int k :: byte) = nat k"
  by (simp add: unat_eq_nat_uint uint_word_of_int take_bit_int_eq_self)

lemma unat_byte_le: "unat (b :: byte) \<le> 255"
  using unsigned_less [of b, where ?'a = nat] by simp

lemma unat_toUint8Clamp:
  "unat (toUint8Clamp (Num x)) =
     (if x \<le> 0 then 0 else if 255 \<le> x then 255 else nat (roundHalfEven x))"
  using roundHalfEven_range [of x] by (simp add: toUint8Clamp_def unat_byte_of_int)

lemma toUint8Clamp_mono:
  assumes "x \<le> y"
  shows "unat (toUint8Clamp (Num x)) \<le> unat (toUint8Clamp (Num y))"
proof -
  have "roundHalfEven x \<le> roundHalfEven y" using assms by (rule roundHalfEven_mono)
  moreover have "0 < x \<Longrightarrow> x < 255 \<Longrightarrow> nat (roundHalfEven x) \<le> 255"
    using roundHalfEven_range [of x] by linarith
  ultimately show ?thesis using assms by (auto simp: unat_toUint8Clamp)
qed

text \<open>The byte stored for a clamped rounded value depends on the rounded real only.\<close>

lemma clamp_rnd:
  "toUint8Clamp (Math_max (Num 0) (Math_min (Num 255) (rnd z))) =
   toUint8Clamp (Num (max 0 (min 255 (fl z))))"
  by (simp add: rnd_def toUint8Clamp_def)

lemma rnd_unit:
  assumes "0 \<le> z" "z \<le> c" "fl c = c" "c < 2 ^ 1024"
  shows "\<exists>q. rnd z = Num q \<and> 0 \<le> q \<and> q \<le> c"
proof -
  have "0 \<le> fl z" using assms(1) by (rule fl_nonneg)
  moreover have "fl z \<le> c" using fl_mono [OF assms(1,2)] assms(3) by simp
  ultimately show ?thesis using assms(4) by (simp add: rnd_def)
qed

lemma alpha_antimono:
  assumes "0 \<le> d" "d < tol" "0 < f1" "f1 \<le> f2"
  shows "unat (toUint8Clamp (alpha d tol f2)) \<le> unat (toUint8Clamp (alpha d tol f1))"
proof -
  from assms have tol: "0 < tol" by simp
  have "0 \<le> d / tol" "d / tol \<le> 1" using assms tol by simp_all
  from rnd_unit [OF this fl_1] obtain q where q: "rnd (d / tol) = Num q" "0 \<le> q" "q \<le> 1"
    by auto
  have "0 \<le> q * 255" "q * 255 \<le> 255" using q by simp_all
  from rnd_unit [OF this fl_255] obtain x where x: "rnd (q * 255) = Num x" "0 \<le> x" "x \<le> 255"
    by auto
  have head: "fmul (fdiv d tol) (Num 255) = Num x"
    using tol q(1) x(1) by (simp add: fdiv_def)
  have inv: "0 \<le> 1 / f2" "1 / f2 \<le> 1 / f1" using assms by (simp_all add: frac_le)
  have a2: "0 \<le> fl (1 / f2)" using inv(1) by (rule fl_nonneg)
  have a21: "fl (1 / f2) \<le> fl (1 / f1)" using inv by (rule fl_mono)
  have f: "fdiv 1 (if f1 = 0 then 1 else f1) = rnd (1 / f1)"
          "fdiv 1 (if f2 = 0 then 1 else f2) = rnd (1 / f2)"
    using assms by (simp_all add: fdiv_def)
  show ?thesis
  proof (cases "x = 0")
    case True
    have "toUint8Clamp (Math_max (Num 0) (Math_min (Num 255) (fmul (Num 0) (rnd z)))) = 0" for z
      by (simp add: rnd_def fl_zero toUint8Clamp_def)
    then show ?thesis by (simp add: alpha_def head f True)
  next
    case False
    with x have xpos: "0 < x" by simp
    show ?thesis
    proof (cases "2 ^ 1024 \<le> fl (1 / f1)")
      case True
      then have "toUint8Clamp (alpha d tol f1) = 255"
        using xpos by (simp add: alpha_def head f rnd_def toUint8Clamp_def)
      then show ?thesis using unat_byte_le [of "toUint8Clamp (alpha d tol f2)"] by simp
    next
      case False
      then have r1: "rnd (1 / f1) = Num (fl (1 / f1))"
        using a2 a21 by (simp add: rnd_def)
      have r2: "rnd (1 / f2) = Num (fl (1 / f2))"
        using False a2 a21 by (simp add: rnd_def)
      have "0 \<le> x * fl (1 / f2)" "x * fl (1 / f2) \<le> x * fl (1 / f1)"
        using xpos a2 a21 by (simp_all add: mult_left_mono)
      then have "fl (x * fl (1 / f2)) \<le> fl (x * fl (1 / f1))" by (rule fl_mono)
      then have "max 0 (min 255 (fl (x * fl (1 / f2)))) \<le> max 0 (min 255 (fl (x * fl (1 / f1))))"
        by auto
      then show ?thesis
        using toUint8Clamp_mono by (simp add: alpha_def head f r1 r2 clamp_rnd)
    qed
  qed
qed

section \<open>The pixel loop\<close>

lemma thresholdLoop_length: "length (thresholdLoop R G B tol fth xs) = length xs"
  by (induction R G B tol fth xs rule: thresholdLoop.induct) simp_all

lemma thresholdLoop_rgb:
  "i < length xs \<Longrightarrow> i mod 4 \<noteq> 3 \<Longrightarrow> thresholdLoop R G B tol fth xs ! i = xs ! i"
proof (induction R G B tol fth xs arbitrary: i rule: thresholdLoop.induct)
  case (1 R G B tol fth r g b a rest)
  show ?case
  proof (cases "i < 4")
    case True
    with "1.prems" have "i = 0 \<or> i = 1 \<or> i = 2" by presburger
    then show ?thesis by (auto simp: nth_Cons')
  next
    case False
    then obtain j where j: "i = j + 4" by (metis le_add_diff_inverse2 not_less)
    with "1.prems" have "j < length rest" "j mod 4 \<noteq> 3" by auto
    then have "thresholdLoop R G B tol fth rest ! j = rest ! j" by (rule "1.IH")
    then show ?thesis by (simp add: j)
  qed
qed simp_all

lemma thresholdLoop_alpha:
  "4 * p + 3 < length xs \<Longrightarrow>
   thresholdLoop R G B tol fth xs ! (4 * p + 3) =
     pixelAlpha R G B tol fth (xs ! (4 * p)) (xs ! (4 * p + 1)) (xs ! (4 * p + 2)) (xs ! (4 * p + 3))"
proof (induction R G B tol fth xs arbitrary: p rule: thresholdLoop.induct)
  case (1 R G B tol fth r g b a rest)
  show ?case
  proof (cases p)
    case 0
    then show ?thesis by simp
  next
    case (Suc q)
    with "1.prems" have "4 * q + 3 < length rest" by simp
    then have "thresholdLoop R G B tol fth rest ! (4 * q + 3) =
      pixelAlpha R G B tol fth (rest ! (4 * q)) (rest ! (4 * q + 1)) (rest ! (4 * q + 2)) (rest ! (4 * q + 3))"
      by (rule "1.IH")
    then show ?thesis by (simp add: Suc add.commute)
  qed
qed simp_all

lemma processInstant_Inr:
  "processInstant ctx img tol fth = Inr out \<Longrightarrow>
   ctx \<and> 0 < width img \<and> 0 < height img \<and>
   out = img\<lparr>data := thresholdLoop (bgR img) (bgG img) (bgB img) tol fth (data img)\<rparr>"
  by (auto simp: processInstant_def split: if_splits)

lemma processInstant_alpha:
  assumes "processInstant ctx img tol fth = Inr out" and "4 * p + 3 < length (data img)"
  shows "data out ! (4 * p + 3) =
     pixelAlpha (bgR img) (bgG img) (bgB img) tol fth
       (data img ! (4 * p)) (data img ! (4 * p + 1)) (data img ! (4 * p + 2)) (data img ! (4 * p + 3))"
  using processInstant_Inr [OF assms(1)] thresholdLoop_alpha [OF assms(2)] by simp

lemma pixelAlpha_dist:
  "pixelDist img p = Some d \<Longrightarrow>
   pixelAlpha (bgR img) (bgG img) (bgB img) tol fth
       (data img ! (4 * p)) (data img ! (4 * p + 1)) (data img ! (4 * p + 2)) a =
   (if d < tol
    then toUint8Clamp (if less_num (Num d) (fdiv tol 1.5) then Num 0 else alpha d tol fth)
    else a)"
  by (simp add: pixelAlpha_def pixelDist_def)

lemma pixelAlpha_nan:
  "pixelDist img p = None \<Longrightarrow>
   pixelAlpha (bgR img) (bgG img) (bgB img) tol fth
       (data img ! (4 * p)) (data img ! (4 * p + 1)) (data img ! (4 * p + 2)) a = a"
  by (simp add: pixelAlpha_def pixelDist_def)

lemma dist_rgb_nonneg: "dist_rgb R G B r g b = Some d \<Longrightarrow> 0 \<le> d"
  by (auto simp: dist_rgb_def fl_nonneg split: option.splits)

section \<open>The engine on the example buffers\<close>

lemma sqrt_1600: "sqrt 1600 = 40"
  using real_sqrt_abs [of 40] by simp

lemma sqrt_1521: "sqrt 1521 = 39"
  using real_sqrt_abs [of 39] by simp

lemmas engine_defs = processInstant_def bgR_def bgG_def bgB_def cornerSum_def corners_def rd_def
  plus_num_def div4_def pixelAlpha_def dist_rgb_def alpha_def toUint8Clamp_def roundHalfEven_def
  fdiv_def rnd_def fl_zero

lemmas binades = fl_normal [where e = "- 1"] fl_normal [where e = 0] fl_normal [where e = 1]
  fl_normal [where e = 2] fl_normal [where e = 4] fl_normal [where e = 5] fl_normal [where e = 6]
  fl_normal [where e = 7] fl_normal [where e = 8]

lemma example_dist: "pixelDist example_image 1 = Some 40"
  by (simp add: pixelDist_def example_image_def engine_defs sqrt_1600 binades)

lemma example_run_1:
  "processInstant True example_image 50 1 =
     Inr (example_image\<lparr>data := [200, 200, 200, 0,  240, 200, 200, 204,  200, 200, 200, 0]\<rparr>)"
  by (simp add: example_image_def engine_defs sqrt_1600 binades)

lemma example_run_2:
  "processInstant True example_image 50 2 =
     Inr (example_image\<lparr>data := [200, 200, 200, 0,  240, 200, 200, 102,  200, 200, 200, 0]\<rparr>)"
  by (simp add: example_image_def engine_defs sqrt_1600 binades)

lemma example_run_half:
  "processInstant True example_image 50 (1 / 2) =
     Inr (example_image\<lparr>data := [200, 200, 200, 0,  240, 200, 200, 255,  200, 200, 200, 0]\<rparr>)"
  by (simp add: example_image_def engine_defs sqrt_1600 binades)

lemma example_run_30:
  "processInstant True example_image 30 1 =
     Inr (example_image\<lparr>data := [200, 200, 200, 0,  240, 200, 200, 100,  200, 200, 200, 0]\<rparr>)"
  by (simp add: example_image_def engine_defs sqrt_1600 binades)

lemma fine_dist: "pixelDist fine_image 1 = Some 39"
  by (simp add: pixelDist_def fine_image_def engine_defs sqrt_1521 binades)

lemma fine_run:
  "processInstant True fine_image 50 feather_1_8 =
     Inr (fine_image\<lparr>data := [200, 200, 200, 0,  239, 200, 200, 111,  200, 200, 200, 0]\<rparr>)"
  by (simp add: fine_image_def feather_1_8_def engine_defs sqrt_1521 binades)

lemma roundHalfEven_eqI:
  assumes "of_int m - 1 / 2 < z" "z < of_int m + 1 / 2"
  shows "roundHalfEven z = m"
proof (cases "of_int m \<le> z")
  case True
  with assms(2) have "\<lfloor>z\<rfloor> = m" by (simp add: floor_eq_iff)
  then show ?thesis using assms(2) by (simp add: roundHalfEven_def)
next
  case False
  with assms(1) have "\<lfloor>z\<rfloor> = m - 1" by (simp add: floor_eq_iff)
  then show ?thesis using assms(1) by (simp add: roundHalfEven_def)
qed

lemma fl_sqrt_17: "fl (sqrt 17) = 4642204239785223 / 2 ^ 50"
proof -
  have lo: "9284408479570445 / 2 ^ 51 < sqrt 17"
    by (rule real_less_rsqrt) (simp add: power2_eq_square)
  have hi: "sqrt 17 < 9284408479570447 / 2 ^ 51"
    by (rule real_less_lsqrt) (simp_all add: power2_eq_square)
  have "of_int 4642204239785223 - 1 / 2 < sqrt 17 / 2 powi (- 50)"
       "sqrt 17 / 2 powi (- 50) < of_int 4642204239785223 + 1 / 2"
    using lo hi by (simp_all add: field_simps)
  then have m: "roundHalfEven (sqrt 17 / 2 powi (- 50)) = 4642204239785223"
    by (rule roundHalfEven_eqI)
  have "2 powi 2 \<le> \<bar>sqrt 17\<bar>" "\<bar>sqrt 17\<bar> < 2 powi (2 + 1)"
    using lo hi by simp_all
  from fl_normal [OF this] m show ?thesis by simp
qed

lemma edge_dist: "pixelDist edge_image 1 = Some (4642204239785223 / 2 ^ 50)"
  by (simp add: pixelDist_def edge_image_def engine_defs fl_sqrt_17)

lemma edge_run:
  "processInstant True edge_image edge_tol 1 =
     Inr (edge_image\<lparr>data := [200, 200, 200, 0,  204, 201, 200, 170,  200, 200, 200, 0]\<rparr>)"
  by (simp add: edge_image_def edge_tol_def engine_defs fl_sqrt_17 binades)

lemma corner_index_bound:
  fixes w h x y :: nat
  assumes "0 < w" "0 < h" "x \<le> w - 1" "y \<le> h - 1"
  shows "(y * w + x) * 4 + 3 < w * h * 4"
proof -
  have "y * w \<le> (h - 1) * w" using assms(4) by simp
  moreover have "(h - 1) * w + w = h * w" using assms(2) by (cases h) simp_all
  ultimately have "y * w + x < h * w" using assms(1,3) by linarith
  then show ?thesis by (simp add: mult.commute)
qed

lemma rd_in_range: "idx < length d \<Longrightarrow> rd d idx = Some (real (unat (d ! idx)))"
  by (simp add: rd_def)

lemma uniform_cornerSum:
  assumes "0 < width img" "0 < height img" "length (data img) = width img * height img * 4"
    and "\<forall>c \<in> set (corners (width img) (height img)). data img ! ((snd c * width img + fst c) * 4 + k) = v"
    and "k < 3"
  shows "cornerSum img k = Some (4 * real (unat v))"
proof -
  have in_range: "((y * width img + x) * 4 + k) < length (data img)"
    if "x \<le> width img - 1" "y \<le> height img - 1" for x y
    using corner_index_bound [OF assms(1,2) that] assms(3,5) by simp
  have r: "rd (data img) ((y * width img + x) * 4 + k) = Some (real (unat v))"
    if "(x, y) \<in> set (corners (width img) (height img))" for x y
  proof -
    from that have "x \<le> width img - 1" "y \<le> height img - 1" by (auto simp: corners_def)
    then have "rd (data img) ((y * width img + x) * 4 + k) =
        Some (real (unat (data img ! ((y * width img + x) * 4 + k))))"
      by (intro rd_in_range in_range)
    with assms(4) that show ?thesis by fastforce
  qed
  have "rd (data img) ((0 * width img + 0) * 4 + k) = Some (real (unat v))"
       "rd (data img) ((0 * width img + (width img - 1)) * 4 + k) = Some (real (unat v))"
       "rd (data img) (((height img - 1) * width img + 0) * 4 + k) = Some (real (unat v))"
       "rd (data img) (((height img - 1) * width img + (width img - 1)) * 4 + k) = Some (real (unat v))"
    by (rule r, simp add: corners_def)+
  then show ?thesis by (simp add: cornerSum_def corners_def plus_num_def)
qed

text \<open>For a positive double \<open>tol\<close>, the rounded \<open>tol / 1.5\<close> is a finite number not above \<open>tol\<close>.\<close>

lemma cut_below_tol:
  assumes "0 < tol" "isDouble tol"
  shows "\<exists>c. fdiv tol 1.5 = Num c \<and> c \<le> tol"
proof -
  have "0 \<le> tol / 1.5" "tol / 1.5 \<le> tol" using assms(1) by simp_all
  moreover have "fl tol = tol" "tol < 2 ^ 1024" using assms by (simp_all add: isDouble_def)
  ultimately obtain q where "rnd (tol / 1.5) = Num q" "q \<le> tol"
    using rnd_unit [of "tol / 1.5" tol] by blast
  then show ?thesis by (simp add: fdiv_def)
qed

section \<open>Claims about \<open>processInstant\<close>\<close>

text \<open>
  Claim C1, as amended. For every pixel that the loop places in the ramp zone (its
  computed distance \<open>dist\<close> passes \<open>dist < tol\<close> and fails \<open>dist < tol / 1.5\<close>), the
  output alpha byte is the value of
  \<open>Math.max(0, Math.min(255, (dist / tol) * 255 * (1 / (fth || 1))))\<close>, every operation in
  double arithmetic, stored in the clamped byte array (rounded to the nearest integer,
  ties to even); \<open>fth || 1\<close> is \<open>fth\<close> itself unless \<open>fth\<close> is 0. For \<open>fth = 0\<close> and for
  \<open>fth \<ge> 1\<close> the divisor is \<open>max(fth, 1)\<close>.
\<close>

theorem ramp_alpha_as_coded:
  assumes "processInstant ctx img tol fth = Inr out"
    and "4 * p + 3 < length (data img)"
    and "pixelDist img p = Some d"
    and "d < tol" and "\<not> less_num (Num d) (fdiv tol 1.5)"
  shows "data out ! (4 * p + 3) =
           toUint8Clamp (Math_max (Num 0) (Math_min (Num 255)
             (fmul (fmul (fdiv d tol) (Num 255)) (fdiv 1 (if fth = 0 then 1 else fth))))) \<and>
         (fth = 0 \<or> 1 \<le> fth \<longrightarrow>
            data out ! (4 * p + 3) =
              toUint8Clamp (Math_max (Num 0) (Math_min (Num 255)
                (fmul (fmul (fdiv d tol) (Num 255)) (fdiv 1 (max fth 1))))))"
proof -
  have "data out ! (4 * p + 3) = toUint8Clamp (alpha d tol fth)"
    using processInstant_alpha [OF assms(1,2)] pixelAlpha_dist [OF assms(3)] assms(4,5) by simp
  moreover have "fth = 0 \<or> 1 \<le> fth \<Longrightarrow> (if fth = 0 then 1 else fth) = max fth 1"
    by auto
  ultimately show ?thesis by (simp add: alpha_def)
qed

text \<open>
  The theorem at the middle pixel of \<open>fine_image\<close>, tolerance 50, feather 1.8: the
  distance is 39, the ramp value in doubles is just above 110.5, and the stored alpha
  is 111.
\<close>

theorem ramp_alpha_as_coded_witness:
  "processInstant True fine_image 50 feather_1_8 =
     Inr (fine_image\<lparr>data := [200, 200, 200, 0,  239, 200, 200, 111,  200, 200, 200, 0]\<rparr>) \<and>
   pixelDist fine_image 1 = Some 39 \<and> (39 :: real) < 50 \<and> \<not> less_num (Num 39) (fdiv 50 1.5) \<and>
   1 \<le> feather_1_8 \<and>
   (111 :: byte) =
     toUint8Clamp (Math_max (Num 0) (Math_min (Num 255)
       (fmul (fmul (fdiv 39 50) (Num 255)) (fdiv 1 feather_1_8)))) \<and>
   (111 :: byte) =
     toUint8Clamp (Math_max (Num 0) (Math_min (Num 255)
       (fmul (fmul (fdiv 39 50) (Num 255)) (fdiv 1 (max feather_1_8 1)))))"
proof -
  have len: "4 * 1 + 3 < length (data fine_image)" by (simp add: fine_image_def)
  have z: "(39 :: real) < 50" "\<not> less_num (Num 39) (fdiv 50 1.5)"
    by (simp_all add: fdiv_def rnd_def binades roundHalfEven_def)
  have f: "feather_1_8 \<noteq> 0" "1 \<le> feather_1_8" by (simp_all add: feather_1_8_def)
  from ramp_alpha_as_coded [OF fine_run len fine_dist z] f
  show ?thesis using fine_run fine_dist z by simp
qed

text \<open>
  Claim C1 as stated fails for a feather between 0 and 1: with feather 0.5 the middle
  pixel of \<open>example_image\<close> (distance 40, tolerance 50) gets alpha 255, where the formula
  with \<open>max(feather, 1)\<close> gives 204.
\<close>

theorem ramp_alpha_feather_half_counterexample:
  "pixelDist example_image 1 = Some 40 \<and> (50 :: real) / 1.5 \<le> 40 \<and> (40 :: real) < 50 \<and>
   alphaAt (processInstant True example_image 50 (1 / 2)) 1 = Some 255 \<and>
   spec_ramp_alpha 40 50 (1 / 2) = 204"
  using example_dist by (simp add: example_run_half alphaAt_def spec_ramp_alpha_def)

text \<open>
  Claim C2, as amended. For a fixed image and tolerance and feathers \<open>0 < f1 < f2\<close>, a
  pixel in the ramp zone gets under \<open>f2\<close> an alpha that is less than or equal to its alpha
  under \<open>f1\<close>: raising a non-zero feather never raises the ramp-zone alpha.
\<close>

theorem feather_increase_lowers_ramp_alpha:
  assumes "processInstant ctx img tol f1 = Inr out1"
    and "processInstant ctx img tol f2 = Inr out2"
    and "4 * p + 3 < length (data img)"
    and "pixelDist img p = Some d"
    and "tol / 1.5 \<le> d" and "d < tol"
    and "0 < f1" and "f1 < f2"
  shows "unat (data out2 ! (4 * p + 3)) \<le> unat (data out1 ! (4 * p + 3))"
proof -
  have d0: "0 \<le> d" using assms(4) unfolding pixelDist_def by (rule dist_rgb_nonneg)
  note eq1 = processInstant_alpha [OF assms(1,3)] pixelAlpha_dist [OF assms(4)]
  note eq2 = processInstant_alpha [OF assms(2,3)] pixelAlpha_dist [OF assms(4)]
  show ?thesis
  proof (cases "less_num (Num d) (fdiv tol 1.5)")
    case True
    then show ?thesis using eq1 eq2 assms(6) by simp
  next
    case False
    have "unat (toUint8Clamp (alpha d tol f2)) \<le> unat (toUint8Clamp (alpha d tol f1))"
      using d0 assms(6,7,8) by (intro alpha_antimono) simp_all
    then show ?thesis using eq1 eq2 assms(6) False by simp
  qed
qed

text \<open>
  The theorem at the middle pixel of \<open>example_image\<close>, tolerance 50, feathers 1 and 2:
  alpha 204 and 102.
\<close>

theorem feather_increase_lowers_ramp_alpha_witness:
  "processInstant True example_image 50 1 =
     Inr (example_image\<lparr>data := [200, 200, 200, 0,  240, 200, 200, 204,  200, 200, 200, 0]\<rparr>) \<and>
   processInstant True example_image 50 2 =
     Inr (example_image\<lparr>data := [200, 200, 200, 0,  240, 200, 200, 102,  200, 200, 200, 0]\<rparr>) \<and>
   pixelDist example_image 1 = Some 40 \<and> (50 :: real) / 1.5 \<le> 40 \<and> (40 :: real) < 50 \<and>
   (0 :: real) < 1 \<and> (1 :: real) < 2 \<and> unat (102 :: byte) \<le> unat (204 :: byte)"
proof -
  have len: "4 * 1 + 3 < length (data example_image)" by (simp add: example_image_def)
  have z: "(50 :: real) / 1.5 \<le> 40" "(40 :: real) < 50" "(0 :: real) < 1" "(1 :: real) < 2"
    by simp_all
  show ?thesis
    using feather_increase_lowers_ramp_alpha [OF example_run_1 example_run_2 len example_dist z]
      example_run_1 example_run_2 example_dist
    by simp
qed

text \<open>
  Claim C2 as stated fails: going from feather 1 to feather 2 lowers the alpha of the
  middle pixel of \<open>example_image\<close> from 204 to 102.
\<close>

theorem feather_increase_counterexample:
  "pixelDist example_image 1 = Some 40 \<and> (50 :: real) / 1.5 \<le> 40 \<and> (40 :: real) < 50 \<and>
   (1 :: real) < 2 \<and>
   alphaAt (processInstant True example_image 50 1) 1 = Some 204 \<and>
   alphaAt (processInstant True example_image 50 2) 1 = Some 102"
  using example_dist by (simp add: example_run_1 example_run_2 alphaAt_def)

text \<open>
  Claim C3, as amended. The output alpha of a pixel is less than or equal to its source
  alpha whenever the loop does not place the pixel in the ramp zone (its computed
  distance fails \<open>dist < tol\<close>, or passes \<open>dist < tol / 1.5\<close>, or is \<open>NaN\<close>), or its
  source alpha is 255.
\<close>

theorem alpha_not_raised_outside_ramp_or_opaque:
  assumes "processInstant ctx img tol fth = Inr out"
    and "4 * p + 3 < length (data img)"
    and "\<not> inRamp img tol p \<or> data img ! (4 * p + 3) = 255"
  shows "unat (data out ! (4 * p + 3)) \<le> unat (data img ! (4 * p + 3))"
proof (cases "pixelDist img p")
  case None
  then show ?thesis
    using processInstant_alpha [OF assms(1,2)] pixelAlpha_nan [OF None] by simp
next
  case (Some d)
  note eq = processInstant_alpha [OF assms(1,2)] pixelAlpha_dist [OF Some]
  consider "\<not> d < tol" | "d < tol" "less_num (Num d) (fdiv tol 1.5)"
    | "d < tol" "\<not> less_num (Num d) (fdiv tol 1.5)" by blast
  then show ?thesis
  proof cases
    case 1
    then show ?thesis using eq by simp
  next
    case 2
    then show ?thesis using eq by (simp add: toUint8Clamp_def)
  next
    case 3
    then have "inRamp img tol p" by (simp add: inRamp_def Some)
    with assms(3) have "data img ! (4 * p + 3) = 255" by simp
    then show ?thesis using unat_byte_le [of "data out ! (4 * p + 3)"] by simp
  qed
qed

text \<open>
  The theorem at the first pixel of \<open>example_image\<close> (a corner, at distance 0).
\<close>

theorem alpha_not_raised_outside_ramp_or_opaque_witness:
  "processInstant True example_image 50 1 =
     Inr (example_image\<lparr>data := [200, 200, 200, 0,  240, 200, 200, 204,  200, 200, 200, 0]\<rparr>) \<and>
   \<not> inRamp example_image 50 0 \<and> unat (0 :: byte) \<le> unat (data example_image ! 3)"
proof -
  have len: "4 * 0 + 3 < length (data example_image)" by (simp add: example_image_def)
  have d0: "pixelDist example_image 0 = Some 0"
    by (simp add: pixelDist_def example_image_def engine_defs)
  have cut: "less_num (Num 0) (fdiv 50 1.5)"
    by (simp add: fdiv_def rnd_def binades roundHalfEven_def)
  have nr: "\<not> inRamp example_image 50 0 \<or> data example_image ! (4 * 0 + 3) = 255"
    using cut by (simp add: inRamp_def d0)
  show ?thesis
    using alpha_not_raised_outside_ramp_or_opaque [OF example_run_1 len nr] example_run_1 cut
    by (simp add: inRamp_def d0)
qed

text \<open>
  Claim C3 as stated fails for a ramp-zone pixel that is not opaque in the source: the
  middle pixel of \<open>example_image\<close> has source alpha 100 and output alpha 204.
\<close>

theorem alpha_raised_counterexample:
  "unat (data example_image ! (4 * 1 + 3)) = 100 \<and>
   alphaAt (processInstant True example_image 50 1) 1 = Some 204"
  by (simp add: example_run_1 alphaAt_def) (simp add: example_image_def)

text \<open>
  Claim C7. A pixel whose distance from the background estimate is greater than or equal
  to the tolerance keeps its source alpha byte.
\<close>

theorem alpha_unchanged_from_tolerance_on:
  assumes "processInstant ctx img tol fth = Inr out"
    and "4 * p + 3 < length (data img)"
    and "pixelDist img p = Some d"
    and "tol \<le> d"
  shows "data out ! (4 * p + 3) = data img ! (4 * p + 3)"
  using processInstant_alpha [OF assms(1,2)] pixelAlpha_dist [OF assms(3)] assms(4) by simp

text \<open>
  The theorem at the middle pixel of \<open>example_image\<close> with tolerance 30: distance 40, alpha
  100 before and after.
\<close>

theorem alpha_unchanged_from_tolerance_on_witness:
  "processInstant True example_image 30 1 =
     Inr (example_image\<lparr>data := [200, 200, 200, 0,  240, 200, 200, 100,  200, 200, 200, 0]\<rparr>) \<and>
   pixelDist example_image 1 = Some 40 \<and> (30 :: real) \<le> 40 \<and>
   data example_image ! 7 = 100"
proof -
  have len: "4 * 1 + 3 < length (data example_image)" by (simp add: example_image_def)
  have "(30 :: real) \<le> 40" by simp
  from alpha_unchanged_from_tolerance_on [OF example_run_30 len example_dist this]
  have "data example_image ! 7 = 100" by simp
  then show ?thesis using example_run_30 example_dist by simp
qed

text \<open>
  Claim C8. The output buffer has the width, height and length of the source, and every
  byte that is not an alpha byte (index not 3 modulo 4) is the source byte.
\<close>

theorem processInstant_keeps_size_and_rgb:
  assumes "processInstant ctx img tol fth = Inr out"
  shows "width out = width img \<and> height out = height img \<and>
         length (data out) = length (data img) \<and>
         (\<forall>i < length (data img). i mod 4 \<noteq> 3 \<longrightarrow> data out ! i = data img ! i)"
  using processInstant_Inr [OF assms] by (simp add: thresholdLoop_length thresholdLoop_rgb)

text \<open>
  The theorem on \<open>example_image\<close>, tolerance 50, feather 2, read at byte 4 (the red byte
  of the middle pixel).
\<close>

theorem processInstant_keeps_size_and_rgb_witness:
  "processInstant True example_image 50 2 =
     Inr (example_image\<lparr>data := [200, 200, 200, 0,  240, 200, 200, 102,  200, 200, 200, 0]\<rparr>) \<and>
   width (example_image\<lparr>data := [200, 200, 200, 0,  240, 200, 200, 102,  200, 200, 200, 0]\<rparr>) = 3 \<and>
   [200, 200, 200, 0,  240, 200, 200, 102,  200, 200, 200, 0 :: byte] ! 4 = data example_image ! 4"
  using processInstant_keeps_size_and_rgb [OF example_run_2] example_run_2
  by (simp add: example_image_def)

text \<open>
  Claim C9, as amended. When the four corner pixels of a well-formed image share one
  colour and the tolerance is a positive double, the background estimate is that colour,
  the engine produces an output, and every pixel whose distance from that colour, as
  computed in double arithmetic (the square root rounded), is below \<open>tol / 1.5\<close>, as
  computed in double arithmetic (the quotient rounded), has output alpha 0.
\<close>

theorem uniform_corners_background:
  assumes "0 < width img" and "0 < height img"
    and "length (data img) = width img * height img * 4"
    and "\<forall>c \<in> set (corners (width img) (height img)). pixelRGB img c = (cr, cg, cb)"
    and "0 < tol" and "isDouble tol"
  shows "bgR img = Some (real (unat cr)) \<and> bgG img = Some (real (unat cg)) \<and>
         bgB img = Some (real (unat cb)) \<and>
         (\<exists>out. processInstant True img tol fth = Inr out \<and>
            (\<forall>p. 4 * p + 3 < length (data img) \<and>
                 less_num
                   (Num (fl (sqrt ((real (unat (data img ! (4 * p))) - real (unat cr))\<^sup>2 +
                                   (real (unat (data img ! (4 * p + 1))) - real (unat cg))\<^sup>2 +
                                   (real (unat (data img ! (4 * p + 2))) - real (unat cb))\<^sup>2))))
                   (fdiv tol 1.5)
                 \<longrightarrow> data out ! (4 * p + 3) = 0))"
proof -
  have c0: "\<forall>c \<in> set (corners (width img) (height img)). data img ! ((snd c * width img + fst c) * 4 + 0) = cr"
   and c1: "\<forall>c \<in> set (corners (width img) (height img)). data img ! ((snd c * width img + fst c) * 4 + 1) = cg"
   and c2: "\<forall>c \<in> set (corners (width img) (height img)). data img ! ((snd c * width img + fst c) * 4 + 2) = cb"
    using assms(4) by (simp_all add: pixelRGB_def Let_def)
  have R: "bgR img = Some (real (unat cr))"
    using uniform_cornerSum [OF assms(1-3) c0] by (simp add: bgR_def div4_def)
  have G: "bgG img = Some (real (unat cg))"
    using uniform_cornerSum [OF assms(1-3) c1] by (simp add: bgG_def div4_def)
  have B: "bgB img = Some (real (unat cb))"
    using uniform_cornerSum [OF assms(1-3) c2] by (simp add: bgB_def div4_def)
  define out where "out = img\<lparr>data := thresholdLoop (bgR img) (bgG img) (bgB img) tol fth (data img)\<rparr>"
  have run: "processInstant True img tol fth = Inr out"
    using assms(1,2) by (simp add: processInstant_def out_def)
  from cut_below_tol [OF assms(5,6)] obtain c where c: "fdiv tol 1.5 = Num c" "c \<le> tol"
    by blast
  have "data out ! (4 * p + 3) = 0"
    if len: "4 * p + 3 < length (data img)"
    and near: "less_num
                   (Num (fl (sqrt ((real (unat (data img ! (4 * p))) - real (unat cr))\<^sup>2 +
                                   (real (unat (data img ! (4 * p + 1))) - real (unat cg))\<^sup>2 +
                                   (real (unat (data img ! (4 * p + 2))) - real (unat cb))\<^sup>2))))
                   (fdiv tol 1.5)" for p
  proof -
    define d where "d = fl (sqrt ((real (unat (data img ! (4 * p))) - real (unat cr))\<^sup>2 +
                       (real (unat (data img ! (4 * p + 1))) - real (unat cg))\<^sup>2 +
                       (real (unat (data img ! (4 * p + 2))) - real (unat cb))\<^sup>2))"
    have pd: "pixelDist img p = Some d"
      by (simp add: pixelDist_def dist_rgb_def R G B d_def)
    from near have lt: "less_num (Num d) (fdiv tol 1.5)" unfolding d_def .
    then have "d < tol" using c by simp
    then show ?thesis
      using processInstant_alpha [OF run len] pixelAlpha_dist [OF pd] lt
      by (simp add: toUint8Clamp_def)
  qed
  with run R G B show ?thesis by blast
qed

text \<open>
  The theorem on \<open>example_image\<close>, whose corners are (200, 200, 200), with tolerance 50,
  read at the first pixel.
\<close>

theorem uniform_corners_background_witness:
  "0 < width example_image \<and> 0 < height example_image \<and>
   length (data example_image) = width example_image * height example_image * 4 \<and>
   pixelRGB example_image (0, 0) = (200, 200, 200) \<and>
   pixelRGB example_image (2, 0) = (200, 200, 200) \<and>
   (0 :: real) < 50 \<and> isDouble 50 \<and>
   bgR example_image = Some 200 \<and> bgG example_image = Some 200 \<and> bgB example_image = Some 200 \<and>
   alphaAt (processInstant True example_image 50 1) 0 = Some 0"
proof -
  have h: "0 < width example_image" "0 < height example_image"
    "length (data example_image) = width example_image * height example_image * 4"
    "\<forall>c \<in> set (corners (width example_image) (height example_image)).
        pixelRGB example_image c = (200, 200, 200)"
    "(0 :: real) < 50" "isDouble 50"
    by (simp_all add: example_image_def corners_def pixelRGB_def isDouble_def binades
        roundHalfEven_def)
  from uniform_corners_background [OF h, of 1]
  have "bgR example_image = Some 200 \<and> bgG example_image = Some 200 \<and> bgB example_image = Some 200"
    by simp
  then show ?thesis using h
    by (simp add: example_run_1 alphaAt_def corners_def) (simp add: example_image_def)
qed

text \<open>
  Claim C9 as stated fails at the boundary of the rounding. The corners of \<open>edge_image\<close>
  are (200, 200, 200) and its middle pixel (204, 201, 200) is at distance \<open>sqrt 17\<close>,
  which is below \<open>edge_tol / 1.5\<close>; in doubles the rounded square root and the rounded
  quotient are the same number, the test \<open>dist < tol / 1.5\<close> fails, and the pixel gets
  the ramp alpha 170.
\<close>

theorem uniform_corners_boundary_counterexample:
  "pixelRGB edge_image (0, 0) = (200, 200, 200) \<and>
   pixelRGB edge_image (2, 0) = (200, 200, 200) \<and>
   pixelRGB edge_image (1, 0) = (204, 201, 200) \<and>
   0 < edge_tol \<and>
   sqrt ((204 - 200)\<^sup>2 + (201 - 200)\<^sup>2 + (200 - 200)\<^sup>2) < edge_tol / 1.5 \<and>
   alphaAt (processInstant True edge_image edge_tol 1) 1 = Some 170"
proof -
  have "sqrt 17 < edge_tol / 1.5"
    by (rule real_less_lsqrt) (simp_all add: edge_tol_def power2_eq_square)
  then show ?thesis
    by (simp add: edge_run alphaAt_def) (simp add: edge_image_def edge_tol_def pixelRGB_def)
qed

section \<open>Properties of the orchestration\<close>

text \<open>
  Claim C4, as amended. In the \<open>App\<close> of part_001, whose submit path is \<open>processFile\<close>,
  a file whose type does not start with \<open>image/\<close> or whose size exceeds 15 MiB is
  rejected before anything starts: \<open>processFile\<close> only records an error message;
  \<open>isProcessing\<close>, \<open>result\<close> and the object URLs are as before and
  \<open>removeBackground\<close> is not called.
\<close>

theorem processFile_rejects_before_start:
  assumes "\<not> prefix ''image/'' (ftype file) \<or> 15 * 1024 * 1024 < fsize file"
  shows "\<exists>msg. processFile_begin file s = (s\<lparr>error := Some msg\<rparr>, None)"
  using assms by (auto simp: processFile_begin_def)

text \<open>
  The theorem at a text file submitted to a fresh \<open>App\<close>.
\<close>

theorem processFile_rejects_before_start_witness:
  "\<not> prefix ''image/'' (ftype notes_txt) \<and>
   processFile_begin notes_txt initialApp =
     (initialApp\<lparr>error := Some ''Please upload a valid image file (PNG, JPG, or WebP).''\<rparr>, None)"
proof -
  have h: "\<not> prefix ''image/'' (ftype notes_txt) \<or> 15 * 1024 * 1024 < fsize notes_txt"
    by (simp add: notes_txt_def)
  from processFile_rejects_before_start [OF h, of initialApp]
  obtain msg where "processFile_begin notes_txt initialApp = (initialApp\<lparr>error := Some msg\<rparr>, None)"
    by blast
  then show ?thesis by (simp add: processFile_begin_def notes_txt_def)
qed

text \<open>
  Claim C4 as stated fails in two places. An empty file of an image type passes
  \<open>processFile\<close> (part_001), which sets \<open>isProcessing\<close>, creates an object URL and
  calls the engine. A \<open>text/plain\<close> file passes \<open>handleFileChange\<close> (part_000), which has
  no check at all: in Express mode it becomes the selected file with a result entry and no
  error, in Deep mode \<open>processFileDeep\<close> starts on it.
\<close>

theorem submit_validation_counterexample:
  "fsize empty_png = 0 \<and>
   isProcessing (fst (processFile_begin empty_png initialApp)) \<and>
   error (fst (processFile_begin empty_png initialApp)) = None \<and>
   liveUrls (fst (processFile_begin empty_png initialApp)) = [0] \<and>
   snd (processFile_begin empty_png initialApp) = Some (ObjectUrl 0) \<and>
   \<not> prefix ''image/'' (ftype notes_txt) \<and>
   error (fst (handleFileChange (Some notes_txt) initialApp)) = None \<and>
   selectedFile (fst (handleFileChange (Some notes_txt) initialApp)) = Some notes_txt \<and>
   result (fst (handleFileChange (Some notes_txt) initialApp)) =
     Some \<lparr>originalUrl = ObjectUrl 0, resultUrl = PlainUrl [], name = ''notes_transparent.png''\<rparr> \<and>
   error (fst (handleFileChange (Some notes_txt) deepApp)) = None \<and>
   isProcessing (fst (handleFileChange (Some notes_txt) deepApp)) \<and>
   snd (handleFileChange (Some notes_txt) deepApp) = Some (notes_txt, ObjectUrl 0)"
  by (simp add: processFile_begin_def handleFileChange_def processFileDeep_begin_def
      createObjectURL_def suggestedName_def empty_png_def notes_txt_def deepApp_def initialApp_def)

text \<open>
  Claim C5, evaluated where the code departs from it. In Deep mode (part_000) a file is
  submitted and \<open>removeBackground\<close> rejects: the object URL made for the source before
  the \<open>await\<close> is stored nowhere, so it is still alive after the failure, and a later
  \<open>reset\<close> (which finds \<open>result\<close> empty) revokes nothing.
\<close>

theorem deep_failure_leaks_source_url:
  "snd (handleFileChange (Some photo) deepApp) = Some (photo, ObjectUrl 0) \<and>
   liveUrls (fst (handleFileChange (Some photo) deepApp)) = [0] \<and>
   result (processFileDeep_end photo (ObjectUrl 0) False (fst (handleFileChange (Some photo) deepApp))) = None \<and>
   liveUrls (processFileDeep_end photo (ObjectUrl 0) False (fst (handleFileChange (Some photo) deepApp))) = [0] \<and>
   liveUrls (reset (processFileDeep_end photo (ObjectUrl 0) False (fst (handleFileChange (Some photo) deepApp)))) = [0] \<and>
   revokedUrls (reset (processFileDeep_end photo (ObjectUrl 0) False (fst (handleFileChange (Some photo) deepApp)))) = []"
  by (simp add: handleFileChange_def processFileDeep_begin_def processFileDeep_end_def reset_def
      createObjectURL_def deepApp_def initialApp_def)

text \<open>
  Claim C10, evaluated where the code departs from it. For \<open>my.photo.jpg\<close> the code
  keeps the text before the first dot and suggests \<open>my_transparent.png\<close>; the name
  without its last extension gives \<open>my.photo_transparent.png\<close>.
\<close>

theorem suggested_name_two_dots:
  "suggestedName ''my.photo.jpg'' = ''my_transparent.png'' \<and>
   spec_suggestedName ''my.photo.jpg'' = ''my.photo_transparent.png'' \<and>
   map_option name (result (processFileDeep photo True deepApp)) = Some ''my_transparent.png''"
  by (simp add: suggestedName_def spec_suggestedName_def spec_basename_def processFileDeep_def
      processFileDeep_begin_def processFileDeep_end_def createObjectURL_def photo_def)

end
